theory Spec2Isabelle
  imports Complex_Main "HOL-Library.AList"
begin

chapter \<open>The model\<close>

section \<open>JavaScript numbers\<close>

text \<open>
  A JavaScript \<^verbatim>\<open>number\<close> is an IEEE double. Its special values are kept apart: the two
  infinities, \<^verbatim>\<open>NaN\<close> and the negative zero (\<open>Fin 0\<close> is the positive one). A finite
  value is its real number. An operation that rounds takes the rounding as a parameter
  \<open>rnd\<close>, from the exact real result to the double the machine returns, which may be an
  infinity (overflow) or a zero (underflow); the theorems hold for every \<open>rnd\<close>.
\<close>

datatype jsnum = Fin real | NegZero | PosInf | NegInf | NaN

definition isNaN :: "jsnum \<Rightarrow> bool" where
  "isNaN x \<longleftrightarrow> x = NaN"

definition isFinite :: "jsnum \<Rightarrow> bool" where
  "isFinite x = (case x of Fin r \<Rightarrow> True | NegZero \<Rightarrow> True | _ \<Rightarrow> False)"

definition is_zero :: "jsnum \<Rightarrow> bool" where
  "is_zero x \<longleftrightarrow> x = Fin 0 \<or> x = NegZero"

definition is_inf :: "jsnum \<Rightarrow> bool" where
  "is_inf x \<longleftrightarrow> x = PosInf \<or> x = NegInf"

definition sign_bit :: "jsnum \<Rightarrow> bool" where
  "sign_bit x = (case x of Fin r \<Rightarrow> r < 0 | NegZero \<Rightarrow> True | NegInf \<Rightarrow> True | _ \<Rightarrow> False)"

definition real_of :: "jsnum \<Rightarrow> real" where
  "real_of x = (case x of Fin r \<Rightarrow> r | _ \<Rightarrow> 0)"

definition zero_of :: "bool \<Rightarrow> jsnum" where
  "zero_of negative = (if negative then NegZero else Fin 0)"

definition inf_of :: "bool \<Rightarrow> jsnum" where
  "inf_of negative = (if negative then NegInf else PosInf)"

text \<open>The operator \<^verbatim>\<open>/\<close>: only the quotient of two finite numbers other than zero is rounded.\<close>

definition js_div :: "(real \<Rightarrow> jsnum) \<Rightarrow> jsnum \<Rightarrow> jsnum \<Rightarrow> jsnum" where
  "js_div rnd x y =
     (if isNaN x \<or> isNaN y then NaN
      else if is_inf x then (if is_inf y then NaN else inf_of (sign_bit x \<noteq> sign_bit y))
      else if is_inf y then zero_of (sign_bit x \<noteq> sign_bit y)
      else if is_zero y then (if is_zero x then NaN else inf_of (sign_bit x \<noteq> sign_bit y))
      else if is_zero x then zero_of (sign_bit x \<noteq> sign_bit y)
      else rnd (real_of x / real_of y))"

text \<open>The operators \<^verbatim>\<open><\<close>, \<^verbatim>\<open>===\<close> and \<^verbatim>\<open><=\<close>: false on \<^verbatim>\<open>NaN\<close>, and the two zeros are equal.\<close>

definition js_lt :: "jsnum \<Rightarrow> jsnum \<Rightarrow> bool" where
  "js_lt x y =
     (if isNaN x \<or> isNaN y then False
      else if x = PosInf \<or> y = NegInf then False
      else if x = NegInf \<or> y = PosInf then True
      else real_of x < real_of y)"

definition js_eq :: "jsnum \<Rightarrow> jsnum \<Rightarrow> bool" where
  "js_eq x y =
     (if isNaN x \<or> isNaN y then False
      else if is_inf x \<or> is_inf y then x = y
      else real_of x = real_of y)"

definition js_le :: "jsnum \<Rightarrow> jsnum \<Rightarrow> bool" where
  "js_le x y \<longleftrightarrow> js_lt x y \<or> js_eq x y"

definition Math_trunc :: "jsnum \<Rightarrow> jsnum" where
  "Math_trunc x =
     (case x of
        Fin r \<Rightarrow>
          if 0 \<le> r then Fin (of_int \<lfloor>r\<rfloor>)
          else if - 1 < r then NegZero
          else Fin (of_int \<lceil>r\<rceil>)
      | _ \<Rightarrow> x)"

definition Math_floor :: "jsnum \<Rightarrow> jsnum" where
  "Math_floor x = (case x of Fin r \<Rightarrow> Fin (of_int \<lfloor>r\<rfloor>) | _ \<Rightarrow> x)"

text \<open>\<^verbatim>\<open>Math.min\<close> of two numbers: \<^verbatim>\<open>NaN\<close> if one of them is, and \<^verbatim>\<open>-0\<close> is below \<^verbatim>\<open>+0\<close>.\<close>

definition Math_min :: "jsnum \<Rightarrow> jsnum \<Rightarrow> jsnum" where
  "Math_min x y =
     (if isNaN x \<or> isNaN y then NaN
      else if js_lt x y \<or> (x = NegZero \<and> y = Fin 0) then x
      else y)"

section \<open>The column layout of the gallery\<close>

text \<open>
  \<^verbatim>\<open>
  function get_column_layout(width: number, minSize: number, maxSize: number): [number, number] {
    const numColumns = Math.trunc(width / minSize);
    let cellSize = Math.trunc(width / numColumns);
    if (isNaN(cellSize) || !isFinite(cellSize)) {
      cellSize = minSize;
    }
    cellSize = Math.min(cellSize, maxSize);
    return [numColumns, cellSize];
  }
  \<close>
\<close>

definition get_column_layout ::
  "(real \<Rightarrow> jsnum) \<Rightarrow> jsnum \<Rightarrow> jsnum \<Rightarrow> jsnum \<Rightarrow> jsnum \<times> jsnum" where
  "get_column_layout rnd width minSize maxSize =
     (let numColumns = Math_trunc (js_div rnd width minSize);
          cellSize = Math_trunc (js_div rnd width numColumns);
          cellSize = (if isNaN cellSize \<or> \<not> isFinite cellSize then minSize else cellSize);
          cellSize = Math_min cellSize maxSize
      in (numColumns, cellSize))"

section \<open>The size of a file in words\<close>

text \<open>
  \<^verbatim>\<open>
  const sufixes = ['Bytes', 'KB', 'MB', 'GB', 'TB', 'PB', 'EB', 'ZB', 'YB'];
  const getBytes = (bytes: number) => {
    if (bytes <= 0) {
      return '0 Bytes';
    }
    const i = Math.floor(Math.log(bytes) / Math.log(1024));
    return (bytes / Math.pow(1024, i)).toFixed(2) + ' ' + sufixes[i];
  };
  \<close>
  \<^verbatim>\<open>getBytes\<close> calls \<^verbatim>\<open>Math.log\<close>, \<^verbatim>\<open>Math.pow\<close> and \<^verbatim>\<open>Number.prototype.toFixed\<close> on its
  positive inputs. They are functions of the JavaScript runtime and parameters here,
  with the rounding of the division.
\<close>

record js_runtime =
  round_double :: "real \<Rightarrow> jsnum"
  Math_log :: "jsnum \<Rightarrow> jsnum"
  Math_pow :: "jsnum \<Rightarrow> jsnum \<Rightarrow> jsnum"
  toFixed :: "jsnum \<Rightarrow> nat \<Rightarrow> string"

definition sufixes :: "string list" where
  "sufixes = [''Bytes'', ''KB'', ''MB'', ''GB'', ''TB'', ''PB'', ''EB'', ''ZB'', ''YB'']"

text \<open>
  \<^verbatim>\<open>' ' + sufixes[i]\<close>: an index that is no position of the array reads \<^verbatim>\<open>undefined\<close>,
  which the concatenation prints.
\<close>

definition sufixes_at :: "jsnum \<Rightarrow> string" where
  "sufixes_at i =
     (case i of
        Fin r \<Rightarrow>
          if r = of_int \<lfloor>r\<rfloor> \<and> 0 \<le> r \<and> r < of_nat (length sufixes)
          then sufixes ! nat \<lfloor>r\<rfloor> else ''undefined''
      | NegZero \<Rightarrow> sufixes ! 0
      | _ \<Rightarrow> ''undefined'')"

definition getBytes :: "js_runtime \<Rightarrow> jsnum \<Rightarrow> string" where
  "getBytes rt bytes =
     (if js_le bytes (Fin 0) then ''0 Bytes''
      else
        let i = Math_floor (js_div (round_double rt) (Math_log rt bytes) (Math_log rt (Fin 1024)))
        in toFixed rt (js_div (round_double rt) bytes (Math_pow rt (Fin 1024) i)) 2
             @ '' '' @ sufixes_at i)"

section \<open>Counting the tags of a file selection\<close>

text \<open>
  \<^verbatim>\<open>
  export function countFileTags(files: ObservableSet<ClientFile>) {
    const counter = new Map<ClientTag, number>();
    for (const file of files) {
      for (const tag of file.tags) {
        const count = counter.get(tag);
        counter.set(tag, count !== undefined ? count + 1 : 1);
      }
    }
    const sortedTags = Array.from(counter.entries())
      .sort((a, b) => b[1] - a[1])
      .map((pair) => pair[0]);
    return { counter, sortedTags };
  }
  \<close>
  \<^verbatim>\<open>countFileTags\<close> walks an \<^verbatim>\<open>ObservableSet<ClientFile>\<close>; every file carries an
  \<^verbatim>\<open>ObservableSet<ClientTag>\<close>. A JavaScript set is iterated in insertion order and never
  yields an element twice, so a set is a list here (the order of iteration) and the
  absence of duplicates is a hypothesis of the theorems. Tags are compared by object
  identity; the type of tags is left open.
\<close>

record 'tag ClientFile =
  tags :: "'tag list"

text \<open>
  The counter is a JavaScript \<^verbatim>\<open>Map\<close>, which keeps its keys in the order of their first
  insertion: an association list, where \<^verbatim>\<open>counter.set\<close> overwrites the entry of a key
  that is present and appends a new one otherwise (this is \<^const>\<open>AList.update\<close>), and
  \<^verbatim>\<open>counter.get\<close> is \<^const>\<open>map_of\<close>, with \<^verbatim>\<open>undefined\<close> as \<^const>\<open>None\<close>.
\<close>

definition count_tag :: "('tag \<times> int) list \<Rightarrow> 'tag \<Rightarrow> ('tag \<times> int) list" where
  "count_tag counter tag =
     (let count = map_of counter tag
      in AList.update tag (case count of Some c \<Rightarrow> c + 1 | None \<Rightarrow> 1) counter)"

text \<open>
  \<^verbatim>\<open>Array.prototype.sort\<close> with a comparator is a stable sort: \<^verbatim>\<open>a\<close> stays before
  \<^verbatim>\<open>b\<close> unless the comparator is positive on them.
\<close>

fun insert_cmp :: "('a \<Rightarrow> 'a \<Rightarrow> int) \<Rightarrow> 'a \<Rightarrow> 'a list \<Rightarrow> 'a list" where
  "insert_cmp cmp x [] = [x]"
| "insert_cmp cmp x (y # ys) =
     (if cmp x y \<le> 0 then x # y # ys else y # insert_cmp cmp x ys)"

definition sort_cmp :: "('a \<Rightarrow> 'a \<Rightarrow> int) \<Rightarrow> 'a list \<Rightarrow> 'a list" where
  "sort_cmp cmp xs = foldr (insert_cmp cmp) xs []"

definition count_file :: "'tag ClientFile \<Rightarrow> ('tag \<times> int) list \<Rightarrow> ('tag \<times> int) list" where
  "count_file file counter = fold (\<lambda>tag c. count_tag c tag) (tags file) counter"

definition countFileTags :: "'tag ClientFile list \<Rightarrow> ('tag \<times> int) list \<times> 'tag list" where
  "countFileTags files =
     (let counter = fold count_file files [];
          sortedTags = map fst (sort_cmp (\<lambda>a b. snd b - snd a) counter)
      in (counter, sortedTags))"

text \<open>The number of files of the collection that carry a tag.\<close>

definition files_with :: "'tag \<Rightarrow> 'tag ClientFile list \<Rightarrow> int" where
  "files_with t files = int (length (filter (\<lambda>file. t \<in> set (tags file)) files))"

text \<open>
  The loop invariant: a counter agrees with a count function \<open>n\<close> when it holds exactly
  the tags whose count is not zero, each with its count.
\<close>

definition agrees :: "('tag \<times> int) list \<Rightarrow> ('tag \<Rightarrow> int) \<Rightarrow> bool" where
  "agrees counter n \<longleftrightarrow> (\<forall>t. map_of counter t = (if n t = 0 then None else Some (n t)))"

section \<open>Search criteria\<close>

text \<open>
  The criteria of a search are declared as TypeScript interfaces. An operator is a string
  literal; the type of the operators of a family is the element type of a constant array
  (\<^verbatim>\<open>typeof NumberOperators[number]\<close>), that is, the set of the strings of the array.
\<close>

definition NumberOperators :: "string list" where
  "NumberOperators =
     [''equals'', ''notEqual'', ''smallerThan'', ''smallerThanOrEquals'', ''greaterThan'',
      ''greaterThanOrEquals'']"

definition NumberOperatorType :: "string set" where
  "NumberOperatorType = set NumberOperators"

definition StringOperators :: "string list" where
  "StringOperators =
     [''equalsIgnoreCase'', ''equals'', ''notEqual'', ''startsWithIgnoreCase'', ''startsWith'',
      ''notStartsWith'', ''contains'', ''notContains'']"

definition StringOperatorType :: "string set" where
  "StringOperatorType = set StringOperators"

definition BinaryOperators :: "string list" where
  "BinaryOperators = [''equals'', ''notEqual'']"

definition BinaryOperatorType :: "string set" where
  "BinaryOperatorType = set BinaryOperators"

definition TagOperators :: "string list" where
  "TagOperators =
     [''contains'', ''notContains'', ''containsRecursively'', ''containsNotRecursively'']"

definition TagOperatorType :: "string set" where
  "TagOperatorType = set TagOperators"

definition OperatorType :: "string set" where
  "OperatorType =
     TagOperatorType \<union> NumberOperatorType \<union> StringOperatorType \<union> BinaryOperatorType"

text \<open>
  The values a criterion can carry: a string, a number, a \<^verbatim>\<open>Date\<close> (its time value, a
  whole number of milliseconds, or none when the date is invalid) and an array of tag
  identifiers. \<^verbatim>\<open>ID\<close> is imported from a module outside these sources; an identifier is
  a string here.
\<close>

type_synonym ID = string

datatype js_value = VString string | VNumber jsnum | VDate "int option" | VIDs "ID list"

text \<open>
  A criterion is a plain object with the four properties of the interfaces. The
  interfaces are types, checked statically and erased at run time: each of them is the
  predicate of the objects it accepts. \<^verbatim>\<open>keyof FileDTO\<close> refers to a declaration outside
  these sources; the set of its keys is a parameter.
\<close>

record criteria_object =
  key :: string
  valueType :: string
  operator :: string
  "value" :: js_value

definition is_string :: "js_value \<Rightarrow> bool" where
  "is_string v = (case v of VString s \<Rightarrow> True | _ \<Rightarrow> False)"

definition is_number :: "js_value \<Rightarrow> bool" where
  "is_number v = (case v of VNumber n \<Rightarrow> True | _ \<Rightarrow> False)"

definition is_Date :: "js_value \<Rightarrow> bool" where
  "is_Date v = (case v of VDate d \<Rightarrow> True | _ \<Rightarrow> False)"

definition is_ID_array :: "js_value \<Rightarrow> bool" where
  "is_ID_array v = (case v of VIDs ids \<Rightarrow> True | _ \<Rightarrow> False)"

definition IBaseSearchCriteria :: "string set \<Rightarrow> criteria_object \<Rightarrow> bool" where
  "IBaseSearchCriteria FileDTO_keys c \<longleftrightarrow>
     key c \<in> FileDTO_keys
     \<and> valueType c \<in> {''number'', ''date'', ''string'', ''array''}
     \<and> operator c \<in> OperatorType"

definition ITagSearchCriteria :: "string set \<Rightarrow> criteria_object \<Rightarrow> bool" where
  "ITagSearchCriteria FileDTO_keys c \<longleftrightarrow>
     IBaseSearchCriteria FileDTO_keys c \<and> is_ID_array (value c) \<and> operator c \<in> TagOperatorType"

definition IStringSearchCriteria :: "string set \<Rightarrow> criteria_object \<Rightarrow> bool" where
  "IStringSearchCriteria FileDTO_keys c \<longleftrightarrow>
     IBaseSearchCriteria FileDTO_keys c \<and> is_string (value c) \<and> operator c \<in> StringOperatorType"

definition INumberSearchCriteria :: "string set \<Rightarrow> criteria_object \<Rightarrow> bool" where
  "INumberSearchCriteria FileDTO_keys c \<longleftrightarrow>
     IBaseSearchCriteria FileDTO_keys c \<and> is_number (value c) \<and> operator c \<in> NumberOperatorType"

definition IDateSearchCriteria :: "string set \<Rightarrow> criteria_object \<Rightarrow> bool" where
  "IDateSearchCriteria FileDTO_keys c \<longleftrightarrow>
     IBaseSearchCriteria FileDTO_keys c \<and> is_Date (value c) \<and> operator c \<in> NumberOperatorType"

definition SearchCriteria :: "string set \<Rightarrow> criteria_object \<Rightarrow> bool" where
  "SearchCriteria FileDTO_keys c \<longleftrightarrow>
     ITagSearchCriteria FileDTO_keys c \<or> IStringSearchCriteria FileDTO_keys c
     \<or> INumberSearchCriteria FileDTO_keys c \<or> IDateSearchCriteria FileDTO_keys c"

section \<open>The construction invariant of the specification\<close>

text \<open>
  Modelled from the spec: the invariant of construction, which no code among the sources
  checks. The specification ties the operator and the operand of a criterion to its declared
  value type: the operator belongs to the operators of the family that \<^verbatim>\<open>valueType\<close>
  names, and the operand has the shape of that family (an array of identifiers, a string,
  a number that is a number, a valid date). These three definitions follow the words of
  the specification; the interfaces above are what the code declares.
\<close>

definition spec_operators_of :: "string \<Rightarrow> string list" where
  "spec_operators_of vt =
     (if vt = ''array'' then TagOperators
      else if vt = ''string'' then StringOperators
      else if vt = ''number'' \<or> vt = ''date'' then NumberOperators
      else [])"

text \<open>
  Modelled from the spec: the shape of the operand that a value type asks for.
\<close>

definition spec_operand_shape :: "string \<Rightarrow> js_value \<Rightarrow> bool" where
  "spec_operand_shape vt v =
     (if vt = ''array'' then is_ID_array v
      else if vt = ''string'' then is_string v
      else if vt = ''number'' then (case v of VNumber n \<Rightarrow> \<not> isNaN n | _ \<Rightarrow> False)
      else if vt = ''date'' then (case v of VDate (Some t) \<Rightarrow> True | _ \<Rightarrow> False)
      else False)"

text \<open>
  Modelled from the spec: a criterion satisfies the invariant of construction.
\<close>

definition spec_well_formed :: "criteria_object \<Rightarrow> bool" where
  "spec_well_formed c \<longleftrightarrow>
     operator c \<in> set (spec_operators_of (valueType c))
     \<and> spec_operand_shape (valueType c) (value c)"

section \<open>The tag graph\<close>

text \<open>
  Modelled from the spec: the tag graph is not among the sources. It owns the edges from
  a tag to its children; here it is the list of the tags that have children, each with
  the list of its children.
\<close>

type_synonym TagGraph = "(ID \<times> ID list) list"

text \<open>
  Modelled from the spec: the children of a tag; a tag the graph does not list has none.
\<close>

definition children_of :: "TagGraph \<Rightarrow> ID \<Rightarrow> ID list" where
  "children_of g t = (case map_of g t of Some cs \<Rightarrow> cs | None \<Rightarrow> [])"

text \<open>
  Modelled from the spec: the traversal behind \<^verbatim>\<open>descendants\<close>, with the set of the visited
  tags, so that a tag under several parents is expanded once. \<open>pending\<close> holds the tags
  still to visit. It terminates on every graph, cyclic ones included: each step either
  visits a new tag that has children, or shortens the pending list.
\<close>

function traverse :: "TagGraph \<Rightarrow> ID list \<Rightarrow> ID list \<Rightarrow> ID list" where
  "traverse g [] visited = visited"
| "traverse g (t # pending) visited =
     (if t \<in> set visited then traverse g pending visited
      else traverse g (children_of g t @ pending) (t # visited))"
  by pat_completeness auto
termination
proof (relation "measures [\<lambda>(g, pending, visited). card (fst ` set g - set visited),
                          \<lambda>(g, pending, visited). length pending]", goal_cases)
  case 1
  show ?case by simp
next
  case (2 g t pending visited)
  then show ?case by simp
next
  case (3 g t pending visited)
  show ?case
  proof (cases "t \<in> fst ` set g")
    case True
    have "fst ` set g - set (t # visited) \<subset> fst ` set g - set visited"
      using True 3 by auto
    then have "card (fst ` set g - set (t # visited)) < card (fst ` set g - set visited)"
      by (intro psubset_card_mono) simp_all
    then show ?thesis by simp
  next
    case False
    then have "map_of g t = None" by (simp add: map_of_eq_None_iff)
    then have c: "children_of g t = []" by (simp add: children_of_def)
    have "fst ` set g - set (t # visited) = fst ` set g - set visited"
      using False by auto
    with c show ?thesis by simp
  qed
qed

text \<open>
  Modelled from the spec: \<^verbatim>\<open>descendants(tagId)\<close>, all tags reachable from the children of
  \<open>tagId\<close>, without \<open>tagId\<close> itself.
\<close>

definition descendants :: "TagGraph \<Rightarrow> ID \<Rightarrow> ID list" where
  "descendants g tagId = removeAll tagId (traverse g (children_of g tagId) [])"

text \<open>
  Modelled from the spec: the parent to child relation of a graph, to state what the
  traversal computes.
\<close>

definition edges :: "TagGraph \<Rightarrow> (ID \<times> ID) set" where
  "edges g = {(p, c). c \<in> set (children_of g p)}"

section \<open>The evaluation of criteria and queries\<close>

text \<open>
  Modelled from the spec: the evaluator, the file it reads and the query are not among
  the sources. The errors are those of the specification's taxonomy.
\<close>

datatype error = ConstructionError | CycleError | EvaluationInvariantViolation

text \<open>
  Modelled from the spec: a file as the core sees it, the set of its assigned tags and
  its string, number and date attributes, read by field key.
\<close>

record File =
  file_id :: ID
  assigned_tags :: "ID list"
  string_field :: "string \<Rightarrow> string"
  number_field :: "string \<Rightarrow> jsnum"
  date_field :: "string \<Rightarrow> int"

text \<open>
  Modelled from the spec: the prefix test of \<^verbatim>\<open>startsWith\<close>, byte for byte.
\<close>

fun startsWith :: "string \<Rightarrow> string \<Rightarrow> bool" where
  "startsWith s [] = True"
| "startsWith [] (p # ps) = False"
| "startsWith (c # s) (p # ps) = (c = p \<and> startsWith s ps)"

text \<open>
  Modelled from the spec: the substring test of \<^verbatim>\<open>contains\<close> on strings.
\<close>

fun has_substring :: "string \<Rightarrow> string \<Rightarrow> bool" where
  "has_substring [] p = (p = [])"
| "has_substring (c # s) p = (startsWith (c # s) p \<or> has_substring s p)"

text \<open>
  Modelled from the spec: the case folding of the operators that ignore case (ASCII
  letters to lower case).
\<close>

definition fold_case :: "string \<Rightarrow> string" where
  "fold_case s =
     map (\<lambda>c. if 65 \<le> (of_char c :: nat) \<and> (of_char c :: nat) \<le> 90
               then char_of (of_char c + 32 :: nat) else c) s"

text \<open>
  Modelled from the spec: the union, over the operand tags, of the tag and its
  descendants.
\<close>

definition tag_closure :: "TagGraph \<Rightarrow> ID list \<Rightarrow> ID list" where
  "tag_closure g ids = concat (map (\<lambda>tagId. tagId # descendants g tagId) ids)"

text \<open>
  Modelled from the spec: two sets of tags intersect.
\<close>

definition intersects :: "ID list \<Rightarrow> ID list \<Rightarrow> bool" where
  "intersects xs ys = list_ex (\<lambda>x. x \<in> set ys) xs"

text \<open>
  Modelled from the spec: the tag family. \<^verbatim>\<open>contains\<close> looks at the assigned tags only,
  \<^verbatim>\<open>containsRecursively\<close> at the operand tags and their descendants; the other two
  are their negations. An operator outside the family is an invariant violation.
\<close>

definition evaluate_tag :: "TagGraph \<Rightarrow> string \<Rightarrow> ID list \<Rightarrow> ID list \<Rightarrow> error + bool" where
  "evaluate_tag g op assigned ids =
     (if op = ''contains'' then Inr (intersects assigned ids)
      else if op = ''notContains'' then Inr (\<not> intersects assigned ids)
      else if op = ''containsRecursively'' then Inr (intersects assigned (tag_closure g ids))
      else if op = ''containsNotRecursively'' then Inr (\<not> intersects assigned (tag_closure g ids))
      else Inl EvaluationInvariantViolation)"

text \<open>
  Modelled from the spec: the string family; the attribute of the file is on the left.
\<close>

definition evaluate_string :: "string \<Rightarrow> string \<Rightarrow> string \<Rightarrow> error + bool" where
  "evaluate_string op a s =
     (if op = ''equalsIgnoreCase'' then Inr (fold_case a = fold_case s)
      else if op = ''equals'' then Inr (a = s)
      else if op = ''notEqual'' then Inr (\<not> a = s)
      else if op = ''startsWithIgnoreCase'' then Inr (startsWith (fold_case a) (fold_case s))
      else if op = ''startsWith'' then Inr (startsWith a s)
      else if op = ''notStartsWith'' then Inr (\<not> startsWith a s)
      else if op = ''contains'' then Inr (has_substring a s)
      else if op = ''notContains'' then Inr (\<not> has_substring a s)
      else Inl EvaluationInvariantViolation)"

text \<open>
  Modelled from the spec: the number family, with the comparisons of JavaScript
  numbers; the attribute of the file is on the left of the operator.
\<close>

definition evaluate_number :: "string \<Rightarrow> jsnum \<Rightarrow> jsnum \<Rightarrow> error + bool" where
  "evaluate_number op a n =
     (if op = ''equals'' then Inr (js_eq a n)
      else if op = ''notEqual'' then Inr (\<not> js_eq a n)
      else if op = ''smallerThan'' then Inr (js_lt a n)
      else if op = ''smallerThanOrEquals'' then Inr (js_le a n)
      else if op = ''greaterThan'' then Inr (js_lt n a)
      else if op = ''greaterThanOrEquals'' then Inr (js_le n a)
      else Inl EvaluationInvariantViolation)"

text \<open>
  Modelled from the spec: a date is compared as its integer timestamp.
\<close>

definition timestamp :: "int \<Rightarrow> jsnum" where
  "timestamp t = Fin (of_int t)"

text \<open>
  Modelled from the spec: \<^verbatim>\<open>evaluate(criterion, file, tagGraph)\<close>. A criterion that breaks
  the construction invariant fails fast; a well-formed one is evaluated by its family.
\<close>

definition evaluate :: "criteria_object \<Rightarrow> File \<Rightarrow> TagGraph \<Rightarrow> error + bool" where
  "evaluate c file g =
     (if \<not> spec_well_formed c then Inl EvaluationInvariantViolation
      else case value c of
        VIDs ids \<Rightarrow> evaluate_tag g (operator c) (assigned_tags file) ids
      | VString s \<Rightarrow> evaluate_string (operator c) (string_field file (key c)) s
      | VNumber n \<Rightarrow> evaluate_number (operator c) (number_field file (key c)) n
      | VDate d \<Rightarrow>
          (case d of
             Some t \<Rightarrow> evaluate_number (operator c) (timestamp (date_field file (key c))) (timestamp t)
           | None \<Rightarrow> Inl EvaluationInvariantViolation))"

text \<open>
  Modelled from the spec: the combination modes of a query, logical AND and logical OR.
\<close>

datatype CombinationMode = matchAll | matchAny

text \<open>
  Modelled from the spec: a query is its criteria, in order, and its combination mode.
\<close>

record Query =
  criteria :: "criteria_object list"
  mode :: CombinationMode

text \<open>
  Modelled from the spec: the conjunction of the criteria, stopping at the first that
  fails; over no criterion it is true.
\<close>

fun matches_all :: "criteria_object list \<Rightarrow> File \<Rightarrow> TagGraph \<Rightarrow> error + bool" where
  "matches_all [] file g = Inr True"
| "matches_all (c # cs) file g =
     (case evaluate c file g of
        Inl e \<Rightarrow> Inl e
      | Inr b \<Rightarrow> if b then matches_all cs file g else Inr False)"

text \<open>
  Modelled from the spec: the disjunction of the criteria, stopping at the first that
  succeeds; over no criterion it is false.
\<close>

fun matches_any :: "criteria_object list \<Rightarrow> File \<Rightarrow> TagGraph \<Rightarrow> error + bool" where
  "matches_any [] file g = Inr False"
| "matches_any (c # cs) file g =
     (case evaluate c file g of
        Inl e \<Rightarrow> Inl e
      | Inr b \<Rightarrow> if b then Inr True else matches_any cs file g)"

text \<open>
  Modelled from the spec: \<^verbatim>\<open>matches(file, tagGraph)\<close>, by the combination mode.
\<close>

definition matches :: "Query \<Rightarrow> File \<Rightarrow> TagGraph \<Rightarrow> error + bool" where
  "matches q file g =
     (case mode q of
        matchAll \<Rightarrow> matches_all (criteria q) file g
      | matchAny \<Rightarrow> matches_any (criteria q) file g)"

chapter \<open>Properties\<close>

section \<open>Properties of countFileTags\<close>

lemma distinct_count_tag:
  "distinct (map fst counter) \<Longrightarrow> distinct (map fst (count_tag counter tag))"
  by (simp add: count_tag_def Let_def distinct_update)

lemma map_of_count_tag:
  "map_of (count_tag counter tag) t =
     (if t = tag then Some (case map_of counter tag of Some c \<Rightarrow> c + 1 | None \<Rightarrow> 1)
      else map_of counter t)"
  by (simp add: count_tag_def Let_def update_conv')

lemma distinct_count_file:
  "distinct (map fst counter) \<Longrightarrow> distinct (map fst (count_file file counter))"
proof -
  have "distinct (map fst c) \<Longrightarrow> distinct (map fst (fold (\<lambda>tag c. count_tag c tag) ts c))"
    for ts :: "'a list" and c
    by (induction ts arbitrary: c) (simp_all add: distinct_count_tag)
  then show "distinct (map fst counter) \<Longrightarrow> distinct (map fst (count_file file counter))"
    by (simp add: count_file_def)
qed

lemma map_of_fold_count_tag:
  "distinct ts \<Longrightarrow>
   map_of (fold (\<lambda>tag c. count_tag c tag) ts counter) t =
     (if t \<in> set ts then Some (case map_of counter t of Some c \<Rightarrow> c + 1 | None \<Rightarrow> 1)
      else map_of counter t)"
proof (induction ts arbitrary: counter)
  case Nil
  then show ?case by simp
next
  case (Cons a ts)
  then show ?case by (auto simp: map_of_count_tag)
qed

lemma map_of_count_file:
  "distinct (tags file) \<Longrightarrow>
   map_of (count_file file counter) t =
     (if t \<in> set (tags file) then Some (case map_of counter t of Some c \<Rightarrow> c + 1 | None \<Rightarrow> 1)
      else map_of counter t)"
  by (simp add: count_file_def map_of_fold_count_tag)

lemma files_with_nonneg: "0 \<le> files_with t files"
  by (simp add: files_with_def)

lemma agrees_fold_count_file:
  "\<forall>file \<in> set files. distinct (tags file) \<Longrightarrow>
   agrees counter (\<lambda>t. files_with t seen) \<Longrightarrow>
   agrees (fold count_file files counter) (\<lambda>t. files_with t (seen @ files))"
proof (induction files arbitrary: counter seen)
  case Nil
  then show ?case by simp
next
  case (Cons f fs)
  have d: "distinct (tags f)" using Cons.prems(1) by simp
  have step: "agrees (count_file f counter) (\<lambda>t. files_with t (seen @ [f]))"
    unfolding agrees_def
  proof
    fix t
    have old: "map_of counter t = (if files_with t seen = 0 then None else Some (files_with t seen))"
      using Cons.prems(2) by (simp add: agrees_def)
    have nn: "0 \<le> files_with t seen" by (rule files_with_nonneg)
    show "map_of (count_file f counter) t =
            (if files_with t (seen @ [f]) = 0 then None else Some (files_with t (seen @ [f])))"
    proof (cases "t \<in> set (tags f)")
      case True
      then have "files_with t (seen @ [f]) = files_with t seen + 1"
        by (simp add: files_with_def)
      with True nn old d show ?thesis
        by (simp add: map_of_count_file)
    next
      case False
      then have "files_with t (seen @ [f]) = files_with t seen"
        by (simp add: files_with_def)
      with False old d show ?thesis
        by (simp add: map_of_count_file)
    qed
  qed
  have "agrees (fold count_file fs (count_file f counter))
          (\<lambda>t. files_with t ((seen @ [f]) @ fs))"
    using Cons.prems(1) step by (intro Cons.IH) simp_all
  then show ?case by simp
qed

lemma agrees_counter:
  "\<forall>file \<in> set files. distinct (tags file) \<Longrightarrow>
   agrees (fold count_file files []) (\<lambda>t. files_with t files)"
  using agrees_fold_count_file [of files "[]" "[]"] by (simp add: agrees_def files_with_def)

lemma distinct_counter: "distinct (map fst (fold count_file files counter)) "
  if "distinct (map fst counter)"
  using that by (induction files arbitrary: counter) (simp_all add: distinct_count_file)

lemma sort_cmp_sort_key:
  "sort_cmp (\<lambda>a b. snd b - snd a) xs = sort_key (\<lambda>p. - snd p) (xs :: ('a \<times> int) list)"
proof -
  have ins: "insert_cmp (\<lambda>a b. snd b - snd a) x ys = insort_key (\<lambda>p. - snd p) x ys"
    for x :: "'a \<times> int" and ys
    by (induction ys) simp_all
  show ?thesis
    by (induction xs) (simp_all add: sort_cmp_def sort_key_def ins)
qed


lemma counts_sorted_desc:
  assumes "distinct (map fst counter)"
  shows "sorted_wrt (\<lambda>a b. b \<le> a)
           (map (\<lambda>t. the (map_of counter t)) (map fst (sort_cmp (\<lambda>a b. snd b - snd a) counter)))"
proof -
  let ?ys = "sort_key (\<lambda>p. - snd p) counter"
  have "\<forall>p \<in> set ?ys. the (map_of counter (fst p)) = snd p"
    using assms by auto
  then have eq: "map (\<lambda>t. the (map_of counter t)) (map fst ?ys) = map snd ?ys"
    by (simp del: set_sort)
  have "sorted (map (\<lambda>p. - snd p) ?ys)" by (rule sorted_sort_key)
  then have "sorted_wrt (\<lambda>a b. b \<le> a) (map snd ?ys)"
    by (simp add: sorted_wrt_map)
  with eq show ?thesis by (simp only: sort_cmp_sort_key)
qed

text \<open>
  Claim C8. For a collection of files whose tag sets hold no tag twice (they are sets),
  the counter of \<^verbatim>\<open>countFileTags\<close> maps a tag \<open>t\<close> to \<open>n\<close> exactly when \<open>n \<ge> 1\<close> and
  \<open>n\<close> files of the collection carry \<open>t\<close>, so that a tag of no file is absent; the keys
  of the counter are pairwise different; and \<^verbatim>\<open>sortedTags\<close> holds exactly the tags of the
  counter, each once, in non-increasing order of their counts.
\<close>

theorem countFileTags_counter_and_order:
  assumes "\<forall>file \<in> set files. distinct (tags file)"
  shows "(map_of (fst (countFileTags files)) t = Some n \<longleftrightarrow> 1 \<le> n \<and> n = files_with t files)
       \<and> distinct (map fst (fst (countFileTags files)))
       \<and> distinct (snd (countFileTags files))
       \<and> set (snd (countFileTags files)) = dom (map_of (fst (countFileTags files)))
       \<and> sorted_wrt (\<lambda>a b. b \<le> a)
           (map (\<lambda>t. the (map_of (fst (countFileTags files)) t)) (snd (countFileTags files)))"
proof -
  let ?counter = "fold count_file files []"
  have d: "distinct (map fst ?counter)" by (rule distinct_counter) simp
  have a: "map_of ?counter t = (if files_with t files = 0 then None else Some (files_with t files))"
    using agrees_counter [OF assms] by (simp add: agrees_def)
  have c1: "map_of ?counter t = Some n \<longleftrightarrow> 1 \<le> n \<and> n = files_with t files"
    using a files_with_nonneg [of t files] by auto
  have c3: "distinct (map fst (sort_cmp (\<lambda>a b. snd b - snd a) ?counter))"
    using d by (simp add: sort_cmp_sort_key distinct_map)
  have c4: "set (map fst (sort_cmp (\<lambda>a b. snd b - snd a) ?counter)) = dom (map_of ?counter)"
    by (simp add: sort_cmp_sort_key dom_map_of_conv_image_fst)
  show ?thesis
    using c1 d c3 c4 counts_sorted_desc [OF d]
    by (simp add: countFileTags_def Let_def)
qed

theorem countFileTags_counter_and_order_witness:
  "distinct (tags \<lparr>tags = [''a'', ''b'']\<rparr>) \<and> distinct (tags \<lparr>tags = [''b'']\<rparr>)
   \<and> map_of (fst (countFileTags [\<lparr>tags = [''a'', ''b'']\<rparr>, \<lparr>tags = [''b'']\<rparr>])) ''b'' = Some 2
   \<and> countFileTags [\<lparr>tags = [''a'', ''b'']\<rparr>, \<lparr>tags = [''b'']\<rparr>]
       = ([(''a'', 1), (''b'', 2)], [''b'', ''a''])"
  using countFileTags_counter_and_order
          [of "[\<lparr>tags = [''a'', ''b'']\<rparr>, \<lparr>tags = [''b'']\<rparr>]" "''b''" 2]
  by (simp add: countFileTags_def count_file_def count_tag_def sort_cmp_def files_with_def)

section \<open>Properties of the column layout\<close>

lemma isFinite_Math_trunc: "isFinite (Math_trunc x) \<longleftrightarrow> isFinite x"
  by (cases x) (simp_all add: Math_trunc_def isFinite_def)

lemma isFinite_not_NaN: "isFinite x \<Longrightarrow> \<not> isNaN x"
  by (auto simp: isNaN_def isFinite_def)

lemma Math_min_finite:
  "isFinite x \<Longrightarrow> isFinite y \<Longrightarrow> isFinite (Math_min x y) \<and> js_le (Math_min x y) y"
  by (cases x; cases y)
     (auto simp: Math_min_def isFinite_def isNaN_def js_le_def js_lt_def js_eq_def
        real_of_def is_inf_def)

lemma js_div_by_zero: "is_zero y \<Longrightarrow> \<not> isFinite (js_div rnd x y)"
  by (cases x; cases y)
     (auto simp: js_div_def is_zero_def isNaN_def is_inf_def isFinite_def inf_of_def
        sign_bit_def)

lemma Math_min_le: "js_lt (Fin 0) x \<Longrightarrow> js_le x y \<Longrightarrow> Math_min x y = x"
  by (cases x; cases y)
     (auto simp: Math_min_def isNaN_def js_le_def js_lt_def js_eq_def real_of_def is_inf_def)

lemma positive_below_finite: "js_lt (Fin 0) x \<Longrightarrow> js_le x y \<Longrightarrow> isFinite y \<Longrightarrow> isFinite x"
  by (cases x; cases y)
     (auto simp: isFinite_def isNaN_def js_le_def js_lt_def js_eq_def real_of_def is_inf_def)

lemma is_zero_Math_trunc_zero: "is_zero x \<Longrightarrow> is_zero (Math_trunc x)"
  by (auto simp: is_zero_def Math_trunc_def)

lemma js_div_below_one:
  assumes rnd: "\<forall>q. 0 < q \<and> q < 1 \<longrightarrow> is_zero (Math_trunc (rnd q))"
    and "js_le (Fin 0) x" and "js_lt x y"
  shows "is_zero (Math_trunc (js_div rnd x y))"
proof (cases "is_zero x")
  case True
  with assms(3) show ?thesis
    by (cases y)
       (auto simp: js_div_def is_zero_def js_lt_def isNaN_def is_inf_def real_of_def
          zero_of_def sign_bit_def Math_trunc_def)
next
  case False
  with assms(2,3) obtain a where x: "x = Fin a" and a: "0 < a"
    by (cases x) (auto simp: js_le_def js_lt_def js_eq_def isNaN_def is_inf_def real_of_def
        is_zero_def split: if_splits)
  show ?thesis
  proof (cases y)
    case (Fin b)
    with x a assms(3) have b: "a < b"
      by (simp add: js_lt_def isNaN_def real_of_def)
    with a have "0 < a / b" and "a / b < 1" by simp_all
    with rnd have "is_zero (Math_trunc (rnd (a / b)))" by blast
    with x Fin a b show ?thesis
      by (simp add: js_div_def isNaN_def is_inf_def is_zero_def real_of_def)
  next
    case PosInf
    with x a show ?thesis
      by (simp add: js_div_def isNaN_def is_inf_def zero_of_def sign_bit_def Math_trunc_def
          is_zero_def)
  qed (use x a assms(3) in \<open>simp_all add: js_lt_def isNaN_def real_of_def\<close>)
qed

text \<open>
  Claim C9. For every width, and every pair of sizes with \<open>0 < minSize \<le> maxSize\<close> and
  \<open>maxSize\<close> finite, \<^verbatim>\<open>get_column_layout\<close> returns a cell size that is finite, is not
  \<^verbatim>\<open>NaN\<close> and is at most \<open>maxSize\<close>, whatever the divisions round to. When the number of
  columns is zero, the division by it gives an infinity or \<^verbatim>\<open>NaN\<close> and the guard makes the
  cell size \<open>minSize\<close>; this is the case of every width from zero up to \<open>minSize\<close>
  excluded, as soon as a quotient strictly between 0 and 1 rounds to a double below 1
  (IEEE division does). The function is total: its model is defined on every input.
\<close>

theorem get_column_layout_cellSize:
  assumes "js_lt (Fin 0) minSize" and "js_le minSize maxSize" and "isFinite maxSize"
  shows "isFinite (snd (get_column_layout rnd width minSize maxSize))
       \<and> \<not> isNaN (snd (get_column_layout rnd width minSize maxSize))
       \<and> js_le (snd (get_column_layout rnd width minSize maxSize)) maxSize
       \<and> (is_zero (fst (get_column_layout rnd width minSize maxSize)) \<longrightarrow>
            snd (get_column_layout rnd width minSize maxSize) = minSize)
       \<and> ((\<forall>q. 0 < q \<and> q < 1 \<longrightarrow> is_zero (Math_trunc (rnd q)))
            \<and> js_le (Fin 0) width \<and> js_lt width minSize \<longrightarrow>
            is_zero (fst (get_column_layout rnd width minSize maxSize)))"
proof -
  let ?n = "Math_trunc (js_div rnd width minSize)"
  let ?c = "Math_trunc (js_div rnd width ?n)"
  let ?g = "if isNaN ?c \<or> \<not> isFinite ?c then minSize else ?c"
  have fm: "isFinite minSize" using assms by (rule positive_below_finite)
  have g: "isFinite ?g" using fm by simp
  have n: "fst (get_column_layout rnd width minSize maxSize) = ?n"
    by (simp add: get_column_layout_def Let_def)
  have r: "snd (get_column_layout rnd width minSize maxSize) = Math_min ?g maxSize"
    by (simp add: get_column_layout_def Let_def)
  have m: "isFinite (Math_min ?g maxSize) \<and> js_le (Math_min ?g maxSize) maxSize"
    using g assms(3) by (rule Math_min_finite)
  then have nan: "\<not> isNaN (Math_min ?g maxSize)" by (simp add: isFinite_not_NaN)
  have zero: "Math_min ?g maxSize = minSize" if "is_zero ?n"
  proof -
    have "\<not> isFinite ?c" using that by (simp add: isFinite_Math_trunc js_div_by_zero)
    then show ?thesis using assms(1,2) by (simp add: Math_min_le)
  qed
  have edge: "is_zero ?n"
    if "\<forall>q. 0 < q \<and> q < 1 \<longrightarrow> is_zero (Math_trunc (rnd q))"
      and "js_le (Fin 0) width" and "js_lt width minSize"
    using that by (rule js_div_below_one)
  show ?thesis
    unfolding n r using m nan zero edge by blast
qed

theorem get_column_layout_cellSize_witness:
  "js_lt (Fin 0) (Fin (756 / 5)) \<and> js_le (Fin (756 / 5)) (Fin 168) \<and> isFinite (Fin 168)
   \<and> js_le (Fin 0) (Fin 100) \<and> js_lt (Fin 100) (Fin (756 / 5))
   \<and> get_column_layout Fin (Fin 100) (Fin (756 / 5)) (Fin 168) = (Fin 0, Fin (756 / 5))
   \<and> isFinite (snd (get_column_layout Fin (Fin 100) (Fin (756 / 5)) (Fin 168)))
   \<and> js_le (snd (get_column_layout Fin (Fin 100) (Fin (756 / 5)) (Fin 168))) (Fin 168)"
  using get_column_layout_cellSize [of "Fin (756 / 5)" "Fin 168" Fin "Fin 100"]
  by (simp add: get_column_layout_def js_div_def isNaN_def is_inf_def is_zero_def real_of_def
      Math_trunc_def Math_min_def js_lt_def js_le_def js_eq_def isFinite_def inf_of_def
      sign_bit_def)

section \<open>Properties of getBytes\<close>

text \<open>
  Claim C10. On every input \<open>bytes \<le> 0\<close> (a zero, a negative number or the negative
  infinity), \<^verbatim>\<open>getBytes\<close> returns the string \<^verbatim>\<open>'0 Bytes'\<close>. The result is the same for
  every runtime: the logarithm, the power and the formatting of the other branch have no
  part in it.
\<close>

theorem getBytes_nonpositive:
  assumes "js_le bytes (Fin 0)"
  shows "getBytes rt bytes = ''0 Bytes''"
  using assms by (simp add: getBytes_def)

theorem getBytes_nonpositive_witness:
  "js_le (Fin (- 5)) (Fin 0)
   \<and> getBytes \<lparr>round_double = Fin, Math_log = (\<lambda>x. NaN), Math_pow = (\<lambda>x y. NaN),
        toFixed = (\<lambda>x n. ''NaN'')\<rparr> (Fin (- 5)) = ''0 Bytes''"
  using getBytes_nonpositive
          [of "Fin (- 5)" "\<lparr>round_double = Fin, Math_log = (\<lambda>x. NaN), Math_pow = (\<lambda>x y. NaN),
             toFixed = (\<lambda>x n. ''NaN'')\<rparr>"]
  by (simp add: js_le_def js_lt_def js_eq_def isNaN_def is_inf_def real_of_def)

section \<open>Properties of the search criteria\<close>

lemma OperatorType_members:
  "TagOperatorType \<subseteq> OperatorType" "StringOperatorType \<subseteq> OperatorType"
  "NumberOperatorType \<subseteq> OperatorType"
  by (auto simp: OperatorType_def)

lemma operator_in_image: "P c \<Longrightarrow> operator c \<in> operator ` {c. P c}"
  by blast

lemma tag_family_operators:
  assumes "FileDTO_keys \<noteq> {}"
  shows "operator ` {c. ITagSearchCriteria FileDTO_keys c} = set TagOperators"
proof
  show "operator ` {c. ITagSearchCriteria FileDTO_keys c} \<subseteq> set TagOperators"
    by (auto simp: ITagSearchCriteria_def TagOperatorType_def)
  from assms obtain k where k: "k \<in> FileDTO_keys" by blast
  show "set TagOperators \<subseteq> operator ` {c. ITagSearchCriteria FileDTO_keys c}"
  proof
    fix x assume x: "x \<in> set TagOperators"
    let ?c = "\<lparr>key = k, valueType = ''array'', operator = x, value = VIDs []\<rparr>"
    have "ITagSearchCriteria FileDTO_keys ?c"
      using k x OperatorType_members(1)
      by (auto simp: ITagSearchCriteria_def IBaseSearchCriteria_def TagOperatorType_def
          is_ID_array_def)
    then show "x \<in> operator ` {c. ITagSearchCriteria FileDTO_keys c}"
      by (rule operator_in_image [where c = ?c, simplified])
  qed
qed

lemma string_family_operators:
  assumes "FileDTO_keys \<noteq> {}"
  shows "operator ` {c. IStringSearchCriteria FileDTO_keys c} = set StringOperators"
proof
  show "operator ` {c. IStringSearchCriteria FileDTO_keys c} \<subseteq> set StringOperators"
    by (auto simp: IStringSearchCriteria_def StringOperatorType_def)
  from assms obtain k where k: "k \<in> FileDTO_keys" by blast
  show "set StringOperators \<subseteq> operator ` {c. IStringSearchCriteria FileDTO_keys c}"
  proof
    fix x assume x: "x \<in> set StringOperators"
    let ?c = "\<lparr>key = k, valueType = ''string'', operator = x, value = VString []\<rparr>"
    have "IStringSearchCriteria FileDTO_keys ?c"
      using k x OperatorType_members(2)
      by (auto simp: IStringSearchCriteria_def IBaseSearchCriteria_def StringOperatorType_def
          is_string_def)
    then show "x \<in> operator ` {c. IStringSearchCriteria FileDTO_keys c}"
      by (rule operator_in_image [where c = ?c, simplified])
  qed
qed

lemma number_family_operators:
  assumes "FileDTO_keys \<noteq> {}"
  shows "operator ` {c. INumberSearchCriteria FileDTO_keys c} = set NumberOperators"
proof
  show "operator ` {c. INumberSearchCriteria FileDTO_keys c} \<subseteq> set NumberOperators"
    by (auto simp: INumberSearchCriteria_def NumberOperatorType_def)
  from assms obtain k where k: "k \<in> FileDTO_keys" by blast
  show "set NumberOperators \<subseteq> operator ` {c. INumberSearchCriteria FileDTO_keys c}"
  proof
    fix x assume x: "x \<in> set NumberOperators"
    let ?c = "\<lparr>key = k, valueType = ''number'', operator = x, value = VNumber (Fin 0)\<rparr>"
    have "INumberSearchCriteria FileDTO_keys ?c"
      using k x OperatorType_members(3)
      by (auto simp: INumberSearchCriteria_def IBaseSearchCriteria_def NumberOperatorType_def
          is_number_def)
    then show "x \<in> operator ` {c. INumberSearchCriteria FileDTO_keys c}"
      by (rule operator_in_image [where c = ?c, simplified])
  qed
qed

lemma date_family_operators:
  assumes "FileDTO_keys \<noteq> {}"
  shows "operator ` {c. IDateSearchCriteria FileDTO_keys c} = set NumberOperators"
proof
  show "operator ` {c. IDateSearchCriteria FileDTO_keys c} \<subseteq> set NumberOperators"
    by (auto simp: IDateSearchCriteria_def NumberOperatorType_def)
  from assms obtain k where k: "k \<in> FileDTO_keys" by blast
  show "set NumberOperators \<subseteq> operator ` {c. IDateSearchCriteria FileDTO_keys c}"
  proof
    fix x assume x: "x \<in> set NumberOperators"
    let ?c = "\<lparr>key = k, valueType = ''date'', operator = x, value = VDate (Some 0)\<rparr>"
    have "IDateSearchCriteria FileDTO_keys ?c"
      using k x OperatorType_members(3)
      by (auto simp: IDateSearchCriteria_def IBaseSearchCriteria_def NumberOperatorType_def
          is_Date_def)
    then show "x \<in> operator ` {c. IDateSearchCriteria FileDTO_keys c}"
      by (rule operator_in_image [where c = ?c, simplified])
  qed
qed

text \<open>
  Claim C1. Whatever the keys of a file are (there is one at least), the operators of the
  criteria of the tag family are exactly \<^verbatim>\<open>contains\<close>, \<^verbatim>\<open>notContains\<close>,
  \<^verbatim>\<open>containsRecursively\<close> and \<^verbatim>\<open>containsNotRecursively\<close>; those of the string family are
  exactly the eight string operators; those of the number family are exactly the six
  comparisons. Every criterion of a family has one of them, and each of them is the
  operator of a criterion of the family.
\<close>

theorem operator_families_exact:
  assumes "FileDTO_keys \<noteq> {}"
  shows "operator ` {c. ITagSearchCriteria FileDTO_keys c}
           = {''contains'', ''notContains'', ''containsRecursively'', ''containsNotRecursively''}
       \<and> operator ` {c. IStringSearchCriteria FileDTO_keys c}
           = {''equalsIgnoreCase'', ''equals'', ''notEqual'', ''startsWithIgnoreCase'',
              ''startsWith'', ''notStartsWith'', ''contains'', ''notContains''}
       \<and> operator ` {c. INumberSearchCriteria FileDTO_keys c}
           = {''equals'', ''notEqual'', ''smallerThan'', ''smallerThanOrEquals'',
              ''greaterThan'', ''greaterThanOrEquals''}"
  unfolding tag_family_operators [OF assms] string_family_operators [OF assms]
    number_family_operators [OF assms]
  by (simp add: TagOperators_def StringOperators_def NumberOperators_def)

theorem operator_families_exact_witness:
  "{''name''} \<noteq> ({} :: string set)
   \<and> operator ` {c. ITagSearchCriteria {''name''} c}
       = {''contains'', ''notContains'', ''containsRecursively'', ''containsNotRecursively''}
   \<and> operator ` {c. INumberSearchCriteria {''name''} c}
           = {''equals'', ''notEqual'', ''smallerThan'', ''smallerThanOrEquals'',
              ''greaterThan'', ''greaterThanOrEquals''}"
  using operator_families_exact [of "{''name''}"] by simp

text \<open>
  The type \<^verbatim>\<open>SearchCriteria\<close> does not tie \<^verbatim>\<open>valueType\<close> to the operator or the operand:
  for every key, a tag criterion that declares the value type \<^verbatim>\<open>number\<close> is accepted.
\<close>

lemma mismatch_for_every_key:
  assumes "k \<in> FileDTO_keys"
  shows "SearchCriteria FileDTO_keys
           \<lparr>key = k, valueType = ''number'', operator = ''containsRecursively'',
            value = VIDs ids\<rparr>
         \<and> \<not> spec_well_formed
           \<lparr>key = k, valueType = ''number'', operator = ''containsRecursively'',
            value = VIDs ids\<rparr>"
  using assms
  by (simp add: SearchCriteria_def ITagSearchCriteria_def IBaseSearchCriteria_def
      OperatorType_def TagOperatorType_def TagOperators_def is_ID_array_def
      spec_operators_of_def NumberOperators_def spec_well_formed_def)

text \<open>
  Claim C2, as stated, fails. The object below is a \<^verbatim>\<open>SearchCriteria\<close> (it is an
  \<^verbatim>\<open>ITagSearchCriteria\<close>), so that writing it raises nothing and a criterion exists; its
  value type is \<^verbatim>\<open>number\<close>, its operator is no \<^verbatim>\<open>NumberOperatorType\<close> and its operand is
  not a number: it breaks the invariant of the specification.
\<close>

theorem SearchCriteria_mismatch_counterexample:
  "SearchCriteria {''tags''}
     \<lparr>key = ''tags'', valueType = ''number'', operator = ''containsRecursively'',
      value = VIDs [''t1'']\<rparr>
   \<and> valueType \<lparr>key = ''tags'', valueType = ''number'', operator = ''containsRecursively'',
        value = VIDs [''t1'']\<rparr> = ''number''
   \<and> operator \<lparr>key = ''tags'', valueType = ''number'', operator = ''containsRecursively'',
        value = VIDs [''t1'']\<rparr> \<notin> NumberOperatorType
   \<and> \<not> is_number (value \<lparr>key = ''tags'', valueType = ''number'',
        operator = ''containsRecursively'', value = VIDs [''t1'']\<rparr>)
   \<and> \<not> spec_well_formed
        \<lparr>key = ''tags'', valueType = ''number'', operator = ''containsRecursively'',
         value = VIDs [''t1'']\<rparr>"
  by (simp add: SearchCriteria_def ITagSearchCriteria_def IBaseSearchCriteria_def
      OperatorType_def TagOperatorType_def TagOperators_def is_ID_array_def is_number_def
      NumberOperatorType_def spec_operators_of_def NumberOperators_def spec_well_formed_def)

lemma family_in_OperatorType:
  "op \<in> set TagOperators \<or> op \<in> set StringOperators \<or> op \<in> set NumberOperators
   \<Longrightarrow> op \<in> OperatorType"
  by (auto simp: OperatorType_def TagOperatorType_def StringOperatorType_def
      NumberOperatorType_def)

text \<open>
  Claim C2, amended. The type \<^verbatim>\<open>SearchCriteria\<close> accepts exactly the objects whose key is
  a key of a file, whose value type is one of the four names, and whose operator and
  operand agree with one of the four interfaces: a tag operator with an array of
  identifiers, a string operator with a string, a number operator with a number or with a
  date. An object whose operator and operand belong to different families is no
  criterion, and every combination that satisfies the invariant of the specification is
  one. The check is the static type; \<^verbatim>\<open>valueType\<close> is not compared with the operator or
  the operand.
\<close>

theorem SearchCriteria_accepts:
  "(SearchCriteria FileDTO_keys c \<longleftrightarrow>
      key c \<in> FileDTO_keys
      \<and> valueType c \<in> {''number'', ''date'', ''string'', ''array''}
      \<and> (operator c \<in> set TagOperators \<and> is_ID_array (value c)
         \<or> operator c \<in> set StringOperators \<and> is_string (value c)
         \<or> operator c \<in> set NumberOperators \<and> (is_number (value c) \<or> is_Date (value c))))
   \<and> (key c \<in> FileDTO_keys \<and> spec_well_formed c \<longrightarrow> SearchCriteria FileDTO_keys c)"
proof -
  have iff: "SearchCriteria FileDTO_keys c \<longleftrightarrow>
      key c \<in> FileDTO_keys
      \<and> valueType c \<in> {''number'', ''date'', ''string'', ''array''}
      \<and> (operator c \<in> set TagOperators \<and> is_ID_array (value c)
         \<or> operator c \<in> set StringOperators \<and> is_string (value c)
         \<or> operator c \<in> set NumberOperators \<and> (is_number (value c) \<or> is_Date (value c)))"
    unfolding SearchCriteria_def ITagSearchCriteria_def IStringSearchCriteria_def
      INumberSearchCriteria_def IDateSearchCriteria_def IBaseSearchCriteria_def
      TagOperatorType_def StringOperatorType_def NumberOperatorType_def
    using family_in_OperatorType [of "operator c"] by blast
  have shape: "valueType c \<in> {''number'', ''date'', ''string'', ''array''}
      \<and> (operator c \<in> set TagOperators \<and> is_ID_array (value c)
         \<or> operator c \<in> set StringOperators \<and> is_string (value c)
         \<or> operator c \<in> set NumberOperators \<and> (is_number (value c) \<or> is_Date (value c)))"
    if "spec_well_formed c"
    using that
    by (auto simp: spec_well_formed_def spec_operators_of_def spec_operand_shape_def
        is_number_def is_Date_def split: if_splits js_value.splits option.splits)
  show ?thesis using iff shape by blast
qed

theorem SearchCriteria_accepts_witness:
  "key \<lparr>key = ''name'', valueType = ''string'', operator = ''startsWith'',
        value = VString ''vac''\<rparr> \<in> {''name''}
   \<and> spec_well_formed \<lparr>key = ''name'', valueType = ''string'', operator = ''startsWith'',
        value = VString ''vac''\<rparr>
   \<and> SearchCriteria {''name''} \<lparr>key = ''name'', valueType = ''string'',
        operator = ''startsWith'', value = VString ''vac''\<rparr>"
  using SearchCriteria_accepts [of "{''name''}" "\<lparr>key = ''name'', valueType = ''string'',
        operator = ''startsWith'', value = VString ''vac''\<rparr>"]
  by (simp add: spec_well_formed_def spec_operators_of_def spec_operand_shape_def
      StringOperators_def is_string_def)

section \<open>Properties of the tag graph\<close>

lemma traverse_sound:
  "set (traverse g pending visited) \<subseteq> set visited \<union> (edges g)\<^sup>* `` set pending"
proof (induction g pending visited rule: traverse.induct)
  case (1 g visited)
  then show ?case by simp
next
  case (2 g t pending visited)
  show ?case
  proof (cases "t \<in> set visited")
    case True
    with 2 show ?thesis by auto
  next
    case False
    have "(edges g)\<^sup>* `` set (children_of g t) \<subseteq> (edges g)\<^sup>* `` {t}"
      by (auto simp: edges_def intro: converse_rtrancl_into_rtrancl)
    with False 2(2) show ?thesis by auto
  qed
qed

lemma traverse_grows:
  "set visited \<union> set pending \<subseteq> set (traverse g pending visited)"
proof (induction g pending visited rule: traverse.induct)
  case (1 g visited)
  then show ?case by simp
next
  case (2 g t pending visited)
  then show ?case by (cases "t \<in> set visited") auto
qed

lemma traverse_closed:
  "edges g `` set visited \<subseteq> set visited \<union> set pending \<Longrightarrow>
   edges g `` set (traverse g pending visited) \<subseteq> set (traverse g pending visited)"
proof (induction g pending visited rule: traverse.induct)
  case (1 g visited)
  then show ?case by simp
next
  case (2 g t pending visited)
  show ?case
  proof (cases "t \<in> set visited")
    case True
    with 2 show ?thesis by auto
  next
    case False
    have "edges g `` set (t # visited) \<subseteq> set (t # visited) \<union> set (children_of g t @ pending)"
      using "2.prems" by (auto simp: edges_def)
    with False 2(2) show ?thesis by simp
  qed
qed

lemma traverse_reachable:
  "set (traverse g pending []) = (edges g)\<^sup>* `` set pending"
proof
  show "set (traverse g pending []) \<subseteq> (edges g)\<^sup>* `` set pending"
    using traverse_sound [of g pending "[]"] by simp
next
  let ?R = "set (traverse g pending [])"
  have closed: "edges g `` ?R \<subseteq> ?R" by (rule traverse_closed) simp
  have start: "set pending \<subseteq> ?R" using traverse_grows [of "[]" pending g] by simp
  have "y \<in> ?R" if "(x, y) \<in> (edges g)\<^sup>*" and "x \<in> ?R" for x y
    using that by (induction rule: rtrancl_induct) (use closed in auto)
  with start show "(edges g)\<^sup>* `` set pending \<subseteq> ?R" by auto
qed

text \<open>
  The descendants of a tag are the tags reachable from it by one edge or more, the tag
  itself excluded: the transitive closure the specification asks for.
\<close>

lemma descendants_transitive_closure:
  "set (descendants g tagId) = (edges g)\<^sup>+ `` {tagId} - {tagId}"
proof -
  have "(edges g)\<^sup>* `` set (children_of g tagId) = (edges g)\<^sup>+ `` {tagId}"
    by (auto simp: edges_def trancl_unfold_left relcomp_unfold)
  then show ?thesis by (simp add: descendants_def traverse_reachable)
qed

section \<open>Properties of the evaluation\<close>

lemma intersects_iff: "intersects xs ys \<longleftrightarrow> set xs \<inter> set ys \<noteq> {}"
  by (auto simp: intersects_def list_ex_iff)

lemma set_tag_closure:
  "set (tag_closure g ids) = (\<Union>tagId \<in> set ids. insert tagId (set (descendants g tagId)))"
  by (auto simp: tag_closure_def)

lemma tag_criterion_well_formed:
  "op \<in> set TagOperators \<Longrightarrow>
   spec_well_formed (c\<lparr>valueType := ''array'', operator := op, value := VIDs ids\<rparr>)"
  by (simp add: spec_well_formed_def spec_operators_of_def spec_operand_shape_def is_ID_array_def)

lemma evaluate_tag_criterion:
  "op \<in> set TagOperators \<Longrightarrow>
   evaluate (c\<lparr>valueType := ''array'', operator := op, value := VIDs ids\<rparr>) file g
     = evaluate_tag g op (assigned_tags file) ids"
  by (simp add: evaluate_def tag_criterion_well_formed)

text \<open>
  Claim C4. A tag criterion with the operator \<^verbatim>\<open>containsRecursively\<close> evaluates to true
  exactly when the assigned tags of the file meet the union, over the operand tags, of
  the tag and its descendants. So when \<open>B\<close> is a descendant of \<open>A\<close>, a file tagged with
  \<open>B\<close> only satisfies \<^verbatim>\<open>containsRecursively\<close> on \<open>A\<close> and does not satisfy \<^verbatim>\<open>contains\<close>
  on \<open>A\<close>.
\<close>

theorem containsRecursively_semantics:
  "evaluate (c\<lparr>valueType := ''array'', operator := ''containsRecursively'', value := VIDs ids\<rparr>)
       file g
     = Inr (set (assigned_tags file)
              \<inter> (\<Union>tagId \<in> set ids. insert tagId (set (descendants g tagId))) \<noteq> {})
   \<and> (B \<in> set (descendants g A) \<longrightarrow>
        evaluate (c\<lparr>valueType := ''array'', operator := ''containsRecursively'',
                    value := VIDs [A]\<rparr>) (file\<lparr>assigned_tags := [B]\<rparr>) g = Inr True
        \<and> evaluate (c\<lparr>valueType := ''array'', operator := ''contains'',
                    value := VIDs [A]\<rparr>) (file\<lparr>assigned_tags := [B]\<rparr>) g = Inr False)"
proof -
  have rec: "''containsRecursively'' \<in> set TagOperators" and con: "''contains'' \<in> set TagOperators"
    by (simp_all add: TagOperators_def)
  have r: "evaluate_tag g ''containsRecursively'' xs ids
      = Inr (set xs \<inter> (\<Union>tagId \<in> set ids. insert tagId (set (descendants g tagId))) \<noteq> {})"
    for xs ids
    by (simp add: evaluate_tag_def intersects_iff set_tag_closure)
  have n: "evaluate_tag g ''contains'' xs ids = Inr (set xs \<inter> set ids \<noteq> {})" for xs ids
    by (simp add: evaluate_tag_def intersects_iff)
  have ne: "B \<noteq> A" if "B \<in> set (descendants g A)"
    using that by (simp add: descendants_def)
  show ?thesis
    using ne by (auto simp: evaluate_tag_criterion [OF rec] evaluate_tag_criterion [OF con] r n)
qed

theorem containsRecursively_semantics_witness:
  "''Labrador'' \<in> set (descendants [(''Animal'', [''Dog'']), (''Dog'', [''Labrador''])] ''Animal'')
   \<and> evaluate \<lparr>key = ''tags'', valueType = ''array'', operator = ''containsRecursively'',
         value = VIDs [''Animal'']\<rparr>
        \<lparr>file_id = ''f1'', assigned_tags = [''Labrador''], string_field = (\<lambda>k. ''''),
         number_field = (\<lambda>k. Fin 0), date_field = (\<lambda>k. 0)\<rparr>
        [(''Animal'', [''Dog'']), (''Dog'', [''Labrador''])] = Inr True
   \<and> evaluate \<lparr>key = ''tags'', valueType = ''array'', operator = ''contains'',
         value = VIDs [''Animal'']\<rparr>
        \<lparr>file_id = ''f1'', assigned_tags = [''Labrador''], string_field = (\<lambda>k. ''''),
         number_field = (\<lambda>k. Fin 0), date_field = (\<lambda>k. 0)\<rparr>
        [(''Animal'', [''Dog'']), (''Dog'', [''Labrador''])] = Inr False"
  using containsRecursively_semantics
    [of "[''Animal'']"
        "\<lparr>key = ''tags'', valueType = ''array'', operator = ''contains'',
         value = VIDs []\<rparr>"
        "\<lparr>file_id = ''f1'', assigned_tags = [''Labrador''], string_field = (\<lambda>k. ''''),
         number_field = (\<lambda>k. Fin 0), date_field = (\<lambda>k. 0)\<rparr>"
        "[(''Animal'', [''Dog'']), (''Dog'', [''Labrador''])]" "''Labrador''" "''Animal''"]
  by (simp add: descendants_def children_of_def)

text \<open>
  Claim C5. A query without criteria matches every file under \<^verbatim>\<open>matchAll\<close> and no file
  under \<^verbatim>\<open>matchAny\<close>, whatever the tag graph.
\<close>

theorem empty_query_asymmetry:
  "matches \<lparr>criteria = [], mode = matchAll\<rparr> file g = Inr True
   \<and> matches \<lparr>criteria = [], mode = matchAny\<rparr> file g = Inr False"
  by (simp add: matches_def)

lemma evaluate_tag_dual:
  "(p, n) \<in> {(''contains'', ''notContains''), (''containsRecursively'', ''containsNotRecursively'')}
   \<Longrightarrow> \<exists>b. evaluate_tag g p xs ids = Inr b \<and> evaluate_tag g n xs ids = Inr (\<not> b)"
  by (auto simp: evaluate_tag_def)

lemma evaluate_string_cases:
  "evaluate_string ''equals'' a s = Inr (a = s)"
  "evaluate_string ''notEqual'' a s = Inr (\<not> a = s)"
  "evaluate_string ''startsWith'' a s = Inr (startsWith a s)"
  "evaluate_string ''notStartsWith'' a s = Inr (\<not> startsWith a s)"
  "evaluate_string ''contains'' a s = Inr (has_substring a s)"
  "evaluate_string ''notContains'' a s = Inr (\<not> has_substring a s)"
  by (simp_all add: evaluate_string_def)

lemma evaluate_string_dual:
  assumes "(p, n) \<in> {(''contains'', ''notContains''), (''equals'', ''notEqual''),
      (''startsWith'', ''notStartsWith'')}"
  shows "\<exists>b. evaluate_string p a s = Inr b \<and> evaluate_string n a s = Inr (\<not> b)"
proof -
  from assms consider "p = ''contains''" "n = ''notContains''"
    | "p = ''equals''" "n = ''notEqual''" | "p = ''startsWith''" "n = ''notStartsWith''"
    by blast
  then show ?thesis
    by cases (simp_all only: evaluate_string_cases sum.inject simp_thms)
qed

lemma evaluate_number_dual:
  "\<exists>b. evaluate_number ''equals'' a x = Inr b \<and> evaluate_number ''notEqual'' a x = Inr (\<not> b)"
  by (auto simp: evaluate_number_def)

lemma well_formed_shape:
  assumes "spec_well_formed c"
  shows "(case value c of
            VIDs ids \<Rightarrow> operator c \<in> set TagOperators
          | VString s \<Rightarrow> operator c \<in> set StringOperators
          | VNumber x \<Rightarrow> operator c \<in> set NumberOperators
          | VDate d \<Rightarrow> operator c \<in> set NumberOperators \<and> d \<noteq> None)"
  using assms
  by (auto simp: spec_well_formed_def spec_operators_of_def spec_operand_shape_def
      is_ID_array_def is_string_def split: if_splits js_value.splits option.splits)

lemma operators_dual:
  assumes "(p, n) \<in> {(''contains'', ''notContains''),
      (''containsRecursively'', ''containsNotRecursively''), (''equals'', ''notEqual''),
      (''startsWith'', ''notStartsWith'')}"
  shows "(p \<in> set TagOperators \<longrightarrow> n \<in> set TagOperators
            \<and> (p, n) \<in> {(''contains'', ''notContains''),
                  (''containsRecursively'', ''containsNotRecursively'')})
       \<and> (p \<in> set StringOperators \<longrightarrow> n \<in> set StringOperators
            \<and> (p, n) \<in> {(''contains'', ''notContains''), (''equals'', ''notEqual''),
                  (''startsWith'', ''notStartsWith'')})
       \<and> (p \<in> set NumberOperators \<longrightarrow> n \<in> set NumberOperators
            \<and> p = ''equals'' \<and> n = ''notEqual'')"
proof -
  from assms have "p = ''contains'' \<and> n = ''notContains''
      \<or> p = ''containsRecursively'' \<and> n = ''containsNotRecursively''
      \<or> p = ''equals'' \<and> n = ''notEqual''
      \<or> p = ''startsWith'' \<and> n = ''notStartsWith''"
    by simp
  then show ?thesis
  proof (elim disjE conjE)
    assume 1: "p = ''contains''" "n = ''notContains''"
    show ?thesis unfolding 1
      by (simp add: TagOperators_def StringOperators_def NumberOperators_def)
  next
    assume 2: "p = ''containsRecursively''" "n = ''containsNotRecursively''"
    show ?thesis unfolding 2
      by (simp add: TagOperators_def StringOperators_def NumberOperators_def)
  next
    assume 3: "p = ''equals''" "n = ''notEqual''"
    show ?thesis unfolding 3
      by (simp add: TagOperators_def StringOperators_def NumberOperators_def)
  next
    assume 4: "p = ''startsWith''" "n = ''notStartsWith''"
    show ?thesis unfolding 4
      by (simp add: TagOperators_def StringOperators_def NumberOperators_def)
  qed
qed

lemma well_formed_operator:
  "spec_well_formed (c\<lparr>operator := x\<rparr>) \<longleftrightarrow>
     x \<in> set (spec_operators_of (valueType c)) \<and> spec_operand_shape (valueType c) (value c)"
  by (simp add: spec_well_formed_def)

text \<open>
  Claim C6. For each pair of a positive operator and its negation
  (\<^verbatim>\<open>contains\<close>/\<^verbatim>\<open>notContains\<close>, \<^verbatim>\<open>containsRecursively\<close>/\<^verbatim>\<open>containsNotRecursively\<close>,
  \<^verbatim>\<open>equals\<close>/\<^verbatim>\<open>notEqual\<close>, \<^verbatim>\<open>startsWith\<close>/\<^verbatim>\<open>notStartsWith\<close>), every criterion that is
  well formed with the positive operator, every file and every tag graph: both
  evaluations return a boolean, and the one of the negative operator is the negation of
  the one of the positive operator, so that exactly one of the two is true.
\<close>

theorem negation_duality:
  assumes pair: "(pos, neg) \<in> {(''contains'', ''notContains''),
      (''containsRecursively'', ''containsNotRecursively''), (''equals'', ''notEqual''),
      (''startsWith'', ''notStartsWith'')}"
    and wf: "spec_well_formed (c\<lparr>operator := pos\<rparr>)"
  shows "\<exists>b. evaluate (c\<lparr>operator := pos\<rparr>) file g = Inr b
           \<and> evaluate (c\<lparr>operator := neg\<rparr>) file g = Inr (\<not> b)"
proof -
  note dual = operators_dual [OF pair]
  have shape: "spec_operand_shape (valueType c) (value c)"
    and pos: "pos \<in> set (spec_operators_of (valueType c))"
    using wf by (simp_all add: well_formed_operator)
  have neg: "neg \<in> set (spec_operators_of (valueType c))"
  proof -
    have "spec_operators_of (valueType c) = TagOperators
        \<or> spec_operators_of (valueType c) = StringOperators
        \<or> spec_operators_of (valueType c) = NumberOperators
        \<or> spec_operators_of (valueType c) = []"
      by (simp add: spec_operators_of_def)
    with pos dual show ?thesis by auto
  qed
  then have wf': "spec_well_formed (c\<lparr>operator := neg\<rparr>)"
    using shape by (simp add: well_formed_operator)
  have ev: "evaluate (c\<lparr>operator := x\<rparr>) file g =
      (case value c of
         VIDs ids \<Rightarrow> evaluate_tag g x (assigned_tags file) ids
       | VString s \<Rightarrow> evaluate_string x (string_field file (key c)) s
       | VNumber n \<Rightarrow> evaluate_number x (number_field file (key c)) n
       | VDate d \<Rightarrow>
           (case d of
              Some t \<Rightarrow> evaluate_number x (timestamp (date_field file (key c))) (timestamp t)
            | None \<Rightarrow> Inl EvaluationInvariantViolation))"
    if "spec_well_formed (c\<lparr>operator := x\<rparr>)" for x
    using that by (simp add: evaluate_def split: js_value.splits option.splits)
  show ?thesis
  proof (cases "value c")
    case (VIDs ids)
    with well_formed_shape [OF wf] have "pos \<in> set TagOperators" by simp
    with dual have "(pos, neg) \<in> {(''contains'', ''notContains''),
                  (''containsRecursively'', ''containsNotRecursively'')}" by blast
    from evaluate_tag_dual [OF this] show ?thesis
      unfolding ev [OF wf] ev [OF wf'] VIDs js_value.case .
  next
    case (VString s)
    with well_formed_shape [OF wf] have "pos \<in> set StringOperators" by simp
    with dual have "(pos, neg) \<in> {(''contains'', ''notContains''), (''equals'', ''notEqual''),
                  (''startsWith'', ''notStartsWith'')}" by blast
    from evaluate_string_dual [OF this] show ?thesis
      unfolding ev [OF wf] ev [OF wf'] VString js_value.case .
  next
    case (VNumber x)
    with well_formed_shape [OF wf] have "pos \<in> set NumberOperators" by simp
    with dual have pn: "pos = ''equals''" "neg = ''notEqual''" by blast+
    have "\<exists>b. evaluate_number pos a x = Inr b \<and> evaluate_number neg a x = Inr (\<not> b)" for a
      unfolding pn by (rule evaluate_number_dual)
    then show ?thesis
      unfolding ev [OF wf] ev [OF wf'] VNumber js_value.case .
  next
    case (VDate d)
    with well_formed_shape [OF wf] obtain t where d: "d = Some t"
      and "pos \<in> set NumberOperators" by auto
    with dual have pn: "pos = ''equals''" "neg = ''notEqual''" by blast+
    have "\<exists>b. evaluate_number pos a x = Inr b \<and> evaluate_number neg a x = Inr (\<not> b)" for a x
      unfolding pn by (rule evaluate_number_dual)
    then show ?thesis
      unfolding ev [OF wf] ev [OF wf'] VDate d js_value.case option.case .
  qed
qed

theorem negation_duality_witness:
  "(''startsWith'', ''notStartsWith'') \<in> {(''contains'', ''notContains''),
      (''containsRecursively'', ''containsNotRecursively''), (''equals'', ''notEqual''),
      (''startsWith'', ''notStartsWith'')}
   \<and> spec_well_formed \<lparr>key = ''name'', valueType = ''string'', operator = ''startsWith'',
         value = VString ''vac''\<rparr>
   \<and> evaluate \<lparr>key = ''name'', valueType = ''string'', operator = ''startsWith'',
         value = VString ''vac''\<rparr>
        \<lparr>file_id = ''f1'', assigned_tags = [], string_field = (\<lambda>k. ''vacation.jpg''),
         number_field = (\<lambda>k. Fin 500), date_field = (\<lambda>k. 0)\<rparr> [] = Inr True
   \<and> evaluate \<lparr>key = ''name'', valueType = ''string'', operator = ''notStartsWith'',
         value = VString ''vac''\<rparr>
        \<lparr>file_id = ''f1'', assigned_tags = [], string_field = (\<lambda>k. ''vacation.jpg''),
         number_field = (\<lambda>k. Fin 500), date_field = (\<lambda>k. 0)\<rparr> [] = Inr False"
  using negation_duality
    [of "''startsWith''" "''notStartsWith''"
        "\<lparr>key = ''name'', valueType = ''string'', operator = ''equals'',
         value = VString ''vac''\<rparr>"
        "\<lparr>file_id = ''f1'', assigned_tags = [], string_field = (\<lambda>k. ''vacation.jpg''),
         number_field = (\<lambda>k. Fin 500), date_field = (\<lambda>k. 0)\<rparr>" "[]"]
  by (simp add: spec_well_formed_def spec_operators_of_def spec_operand_shape_def
      StringOperators_def is_string_def evaluate_def evaluate_string_def)

lemma timestamp_order:
  "js_eq (timestamp u) (timestamp t) \<longleftrightarrow> u = t"
  "js_lt (timestamp u) (timestamp t) \<longleftrightarrow> u < t"
  "js_le (timestamp u) (timestamp t) \<longleftrightarrow> u \<le> t"
  by (auto simp: timestamp_def js_eq_def js_lt_def js_le_def isNaN_def is_inf_def real_of_def)

lemma evaluate_number_cases:
  "evaluate_number ''equals'' a n = Inr (js_eq a n)"
  "evaluate_number ''notEqual'' a n = Inr (\<not> js_eq a n)"
  "evaluate_number ''smallerThan'' a n = Inr (js_lt a n)"
  "evaluate_number ''smallerThanOrEquals'' a n = Inr (js_le a n)"
  "evaluate_number ''greaterThan'' a n = Inr (js_lt n a)"
  "evaluate_number ''greaterThanOrEquals'' a n = Inr (js_le n a)"
  by (simp_all add: evaluate_number_def)

lemma evaluate_date_criterion:
  assumes "op \<in> set NumberOperators"
  shows "evaluate \<lparr>key = k, valueType = ''date'', operator = op, value = VDate (Some t)\<rparr> file g
           = evaluate_number op (timestamp (date_field file k)) (timestamp t)"
  using assms
  by (simp add: evaluate_def spec_well_formed_def spec_operators_of_def spec_operand_shape_def)

lemma NumberOperators_members:
  "''equals'' \<in> set NumberOperators" "''notEqual'' \<in> set NumberOperators"
  "''smallerThan'' \<in> set NumberOperators" "''smallerThanOrEquals'' \<in> set NumberOperators"
  "''greaterThan'' \<in> set NumberOperators" "''greaterThanOrEquals'' \<in> set NumberOperators"
  by (simp_all add: NumberOperators_def)

text \<open>
  Claim C3. A date criterion carries a \<^verbatim>\<open>Date\<close>, and the operators of the date criteria
  are exactly those of the number criteria, the six comparisons. Evaluated on a file,
  a date criterion compares the timestamp of the file's date with the timestamp of its
  operand in the order of the integers, which is total: \<^verbatim>\<open>equals\<close> is equality,
  \<^verbatim>\<open>smallerThan\<close> is \<open><\<close>, and so on for the six operators.
\<close>

theorem date_criterion_operators_and_order:
  assumes "FileDTO_keys \<noteq> {}"
  shows "(IDateSearchCriteria FileDTO_keys c \<longrightarrow> is_Date (value c))
       \<and> operator ` {c. IDateSearchCriteria FileDTO_keys c}
           = operator ` {c. INumberSearchCriteria FileDTO_keys c}
       \<and> operator ` {c. IDateSearchCriteria FileDTO_keys c}
           = {''equals'', ''notEqual'', ''smallerThan'', ''smallerThanOrEquals'',
              ''greaterThan'', ''greaterThanOrEquals''}
       \<and> evaluate \<lparr>key = k, valueType = ''date'', operator = ''equals'',
             value = VDate (Some t)\<rparr> file g = Inr (date_field file k = t)
       \<and> evaluate \<lparr>key = k, valueType = ''date'', operator = ''notEqual'',
             value = VDate (Some t)\<rparr> file g = Inr (date_field file k \<noteq> t)
       \<and> evaluate \<lparr>key = k, valueType = ''date'', operator = ''smallerThan'',
             value = VDate (Some t)\<rparr> file g = Inr (date_field file k < t)
       \<and> evaluate \<lparr>key = k, valueType = ''date'', operator = ''smallerThanOrEquals'',
             value = VDate (Some t)\<rparr> file g = Inr (date_field file k \<le> t)
       \<and> evaluate \<lparr>key = k, valueType = ''date'', operator = ''greaterThan'',
             value = VDate (Some t)\<rparr> file g = Inr (date_field file k > t)
       \<and> evaluate \<lparr>key = k, valueType = ''date'', operator = ''greaterThanOrEquals'',
             value = VDate (Some t)\<rparr> file g = Inr (date_field file k \<ge> t)"
proof -
  have a: "IDateSearchCriteria FileDTO_keys c \<longrightarrow> is_Date (value c)"
    by (simp add: IDateSearchCriteria_def)
  have b: "operator ` {c. IDateSearchCriteria FileDTO_keys c}
           = operator ` {c. INumberSearchCriteria FileDTO_keys c}"
    using date_family_operators [OF assms] number_family_operators [OF assms] by simp
  have c: "operator ` {c. IDateSearchCriteria FileDTO_keys c}
           = {''equals'', ''notEqual'', ''smallerThan'', ''smallerThanOrEquals'',
              ''greaterThan'', ''greaterThanOrEquals''}"
    unfolding date_family_operators [OF assms] by (simp add: NumberOperators_def)
  show ?thesis
    unfolding NumberOperators_members [THEN evaluate_date_criterion] evaluate_number_cases
      timestamp_order
    using a b c by simp
qed

theorem date_criterion_operators_and_order_witness:
  "{''dateModified''} \<noteq> ({} :: string set)
   \<and> IDateSearchCriteria {''dateModified''}
        \<lparr>key = ''dateModified'', valueType = ''date'', operator = ''smallerThan'',
         value = VDate (Some 1000)\<rparr>
   \<and> is_Date (value \<lparr>key = ''dateModified'', valueType = ''date'', operator = ''smallerThan'',
         value = VDate (Some 1000)\<rparr>)
   \<and> evaluate \<lparr>key = ''dateModified'', valueType = ''date'', operator = ''smallerThan'',
         value = VDate (Some 1000)\<rparr>
        \<lparr>file_id = ''f1'', assigned_tags = [], string_field = (\<lambda>k. ''''),
         number_field = (\<lambda>k. Fin 0), date_field = (\<lambda>k. 500)\<rparr> [] = Inr True"
  using date_criterion_operators_and_order
    [of "{''dateModified''}"
        "\<lparr>key = ''dateModified'', valueType = ''date'', operator = ''smallerThan'',
         value = VDate (Some 1000)\<rparr>"
        "''dateModified''" 1000
        "\<lparr>file_id = ''f1'', assigned_tags = [], string_field = (\<lambda>k. ''''),
         number_field = (\<lambda>k. Fin 0), date_field = (\<lambda>k. 500)\<rparr>" "[]"]
  by (simp add: IDateSearchCriteria_def IBaseSearchCriteria_def OperatorType_def
      NumberOperatorType_def NumberOperators_def is_Date_def)

end
